theory Spec2Isabelle
  imports Main "HOL-Library.Word"
begin

unbundle bit_operations_syntax

section \<open>Bytes, 32-bit words and byte order\<close>

type_synonym byte = "8 word"
type_synonym uint32 = "32 word"

text \<open>
  The host's byte order decides how a \<open>uint32_t\<close> lies in memory, and so what
  \<open>memcpy\<close> from or to such an object moves. It is a parameter of the model.
\<close>

datatype endian = Little_Endian | Big_Endian

definition be_bytes :: "uint32 \<Rightarrow> byte list" where
  "be_bytes w = [ucast (drop_bit 24 w), ucast (drop_bit 16 w), ucast (drop_bit 8 w), ucast w]"

definition be_word :: "byte list \<Rightarrow> uint32" where
  "be_word bs = foldl (\<lambda>acc b. push_bit 8 acc OR ucast b) 0 bs"

text \<open>The object representation of a \<open>uint32_t\<close> on the host, and the value of
  the \<open>uint32_t\<close> whose object representation is the given four bytes.\<close>

definition obj_bytes :: "endian \<Rightarrow> uint32 \<Rightarrow> byte list" where
  "obj_bytes e w = (case e of Big_Endian \<Rightarrow> be_bytes w | Little_Endian \<Rightarrow> rev (be_bytes w))"

definition obj_word :: "endian \<Rightarrow> byte list \<Rightarrow> uint32" where
  "obj_word e bs = (case e of Big_Endian \<Rightarrow> be_word bs | Little_Endian \<Rightarrow> be_word (rev bs))"

text \<open>\<open>htonl\<close> of the C library: the identity on a big-endian host, a swap of the
  four bytes on a little-endian one.\<close>

definition bswap_32 :: "uint32 \<Rightarrow> uint32" where
  "bswap_32 x = drop_bit 24 (x AND 0xff000000) OR drop_bit 8 (x AND 0x00ff0000)
     OR push_bit 8 (x AND 0x0000ff00) OR push_bit 24 (x AND 0x000000ff)"

definition htonl :: "endian \<Rightarrow> uint32 \<Rightarrow> uint32" where
  "htonl e x = (case e of Big_Endian \<Rightarrow> x | Little_Endian \<Rightarrow> bswap_32 x)"

section \<open>Memory\<close>

text \<open>
  An array is the list of its bytes. \<open>memcpy dst off src n\<close> is the C call
  \<open>memcpy(dst + off, src, n)\<close>: the first \<open>n\<close> bytes of \<open>src\<close> replace the bytes
  \<open>off ..< off + n\<close> of \<open>dst\<close>. C leaves a copy that runs past either array
  undefined; the theorems on the claims take the arrays long enough, so that none
  relies on what the lists do there.
\<close>

definition memcpy :: "byte list \<Rightarrow> nat \<Rightarrow> byte list \<Rightarrow> nat \<Rightarrow> byte list" where
  "memcpy dst off src n = take off dst @ take n src @ drop (off + n) dst"

text \<open>A local array that the code declares and does not initialise: \<open>n\<close> bytes of
  indeterminate content, given by the parameter \<open>junk\<close>.\<close>

definition uninit :: "nat \<Rightarrow> (nat \<Rightarrow> byte) \<Rightarrow> byte list" where
  "uninit n junk = map junk [0..<n]"

section \<open>The stream endpoint\<close>

text \<open>
  The descriptor's kernel side. \<open>rx\<close> is what arrives from the peer, in order: a
  segment of bytes or an error; once it is used up the peer has closed and every
  \<open>read\<close> returns 0. \<open>tx\<close> lists how the next \<open>write\<close> calls go: an error, or room
  for at most so many bytes; once it is used up the connection is gone and \<open>write\<close>
  fails. \<open>wire\<close> collects the bytes sent; \<open>reads\<close> and \<open>writes\<close> count the system
  calls made.
\<close>

datatype rx_event = Rx_Error | Rx_Data "byte list"
datatype tx_event = Tx_Error | Tx_Room nat

record sock =
  rx :: "rx_event list"
  tx :: "tx_event list"
  wire :: "byte list"
  reads :: nat
  writes :: nat

text \<open>\<open>read(fd, p, count)\<close>: the return value, the bytes stored at \<open>p\<close>, the endpoint
  afterwards. A segment longer than \<open>count\<close> is delivered in part; the rest stays
  queued.\<close>

definition sys_read :: "sock \<Rightarrow> nat \<Rightarrow> int \<times> byte list \<times> sock" where
  "sys_read fd count =
     (case rx fd of
        [] \<Rightarrow> (0, [], fd\<lparr>reads := reads fd + 1\<rparr>)
      | Rx_Error # es \<Rightarrow> (- 1, [], fd\<lparr>rx := es, reads := reads fd + 1\<rparr>)
      | Rx_Data d # es \<Rightarrow>
          (int (length (take count d)), take count d,
           fd\<lparr>rx := (if length d \<le> count then es else Rx_Data (drop count d) # es),
              reads := reads fd + 1\<rparr>))"

text \<open>\<open>write(fd, p, count)\<close>, \<open>data\<close> being the \<open>count\<close> bytes at \<open>p\<close>: the return
  value and the endpoint afterwards.\<close>

definition sys_write :: "sock \<Rightarrow> byte list \<Rightarrow> int \<times> sock" where
  "sys_write fd data =
     (case tx fd of
        [] \<Rightarrow> (- 1, fd\<lparr>writes := writes fd + 1\<rparr>)
      | Tx_Error # es \<Rightarrow> (- 1, fd\<lparr>tx := es, writes := writes fd + 1\<rparr>)
      | Tx_Room n # es \<Rightarrow>
          (int (length (take n data)),
           fd\<lparr>tx := es, wire := wire fd @ take n data, writes := writes fd + 1\<rparr>))"

section \<open>Constants of the headers\<close>

text \<open>Modelled from the spec: \<open>HEADER_LEN\<close> is defined in \<open>net.h\<close>, which is not among
  the sources; the spec gives the header length as 5 bytes (a 4-byte opcode and a
  status byte).\<close>

definition HEADER_LEN :: nat where
  "HEADER_LEN = 5"

text \<open>Modelled from the spec: \<open>JBOD_BLOCK_SIZE\<close> is defined in \<open>jbod.h\<close>, which is not
  among the sources; the spec gives the block size as 256 bytes.\<close>

definition JBOD_BLOCK_SIZE :: nat where
  "JBOD_BLOCK_SIZE = 256"

text \<open>\<open>JBOD_WRITE_BLOCK\<close> is an enumerator of \<open>jbod.h\<close> whose value neither the sources
  nor the spec give: it is the parameter \<open>wb\<close> of \<open>send_packet\<close>.\<close>

section \<open>Reliable byte transfer\<close>

text \<open>
  The loops of \<open>nread\<close> and \<open>nwrite\<close>, from the state at the loop head. The result
  is \<open>None\<close> when the loop never ends; otherwise the returned flag, the endpoint and
  (for \<open>nread\<close>) the buffer afterwards. \<open>read\<close> and \<open>write\<close> return at most the
  count they are given, so the counters stay between 0 and \<open>len\<close> and C's \<open>int\<close>
  does not wrap: they are integers here.
\<close>

partial_function (option) nread_loop ::
  "sock \<Rightarrow> int \<Rightarrow> byte list \<Rightarrow> int \<Rightarrow> (bool \<times> sock \<times> byte list) option" where
  "nread_loop fd len buf r_byte =
     (if r_byte < len then
        (case sys_read fd (nat (len - r_byte)) of
           (num, data, fd') \<Rightarrow>
             if num = - 1 then Some (False, fd', buf)
             else nread_loop fd' len (memcpy buf (nat r_byte) data (nat num)) (r_byte + num))
      else Some (True, fd, buf))"

declare nread_loop.simps [code]

definition nread :: "sock \<Rightarrow> int \<Rightarrow> byte list \<Rightarrow> (bool \<times> sock \<times> byte list) option" where
  "nread fd len buf = nread_loop fd len buf 0"

partial_function (option) nwrite_loop ::
  "sock \<Rightarrow> int \<Rightarrow> byte list \<Rightarrow> int \<Rightarrow> (bool \<times> sock) option" where
  "nwrite_loop fd len buf w_byte =
     (if w_byte < len then
        (case sys_write fd (take (nat (len - w_byte)) (drop (nat w_byte) buf)) of
           (num, fd') \<Rightarrow>
             if num = - 1 then Some (False, fd')
             else nwrite_loop fd' len buf (w_byte + num))
      else Some (True, fd))"

declare nwrite_loop.simps [code]

definition nwrite :: "sock \<Rightarrow> int \<Rightarrow> byte list \<Rightarrow> (bool \<times> sock) option" where
  "nwrite fd len buf = nwrite_loop fd len buf 0"

section \<open>Packets\<close>

text \<open>
  \<open>recv_packet\<close> gets the values behind the pointers \<open>op\<close>, \<open>ret\<close> and \<open>block\<close>
  and returns, with its flag and the endpoint, what lies behind them afterwards.
\<close>

definition recv_packet ::
  "endian \<Rightarrow> (nat \<Rightarrow> byte) \<Rightarrow> sock \<Rightarrow> uint32 \<Rightarrow> byte \<Rightarrow> byte list
     \<Rightarrow> (bool \<times> sock \<times> uint32 \<times> byte \<times> byte list) option" where
  "recv_packet e junk sd op ret block =
     (case nread sd (int HEADER_LEN) (uninit HEADER_LEN junk) of
        None \<Rightarrow> None
      | Some (status, sd1, packet) \<Rightarrow>
          if status = False then Some (False, sd1, op, ret, block)
          else
            let op' = obj_word e (take 4 packet);
                ret' = packet ! 4
            in if ret' AND 1 \<noteq> 0 then Some (False, sd1, op', ret', block)
               else if ret' AND 2 \<noteq> 0 then
                 (case nread sd1 (int JBOD_BLOCK_SIZE) block of
                    None \<Rightarrow> None
                  | Some (status', sd2, block') \<Rightarrow>
                      if status' = False then Some (False, sd2, op', ret', block')
                      else Some (True, sd2, op', ret', block'))
               else Some (True, sd1, op', ret', block))"

text \<open>
  \<open>send_packet\<close>. In the second branch \<open>memcpy\<close> reads \<open>HEADER_LEN\<close> bytes from the
  4-byte object \<open>t_op\<close>: the bytes of \<open>t_op\<close> and then the byte that lies behind
  it in memory, the parameter \<open>adj\<close>.
\<close>

definition send_packet ::
  "endian \<Rightarrow> uint32 \<Rightarrow> (nat \<Rightarrow> byte) \<Rightarrow> byte \<Rightarrow> sock \<Rightarrow> uint32 \<Rightarrow> byte list
     \<Rightarrow> (bool \<times> sock) option" where
  "send_packet e wb junk adj sd op block =
     (let packet = uninit (HEADER_LEN + 256) junk;
          bitmask = push_bit 12 (0x3f :: uint32);
          cmd = drop_bit 12 (op AND bitmask);
          t_op = htonl e op
      in if cmd = wb then
           let ret = (2 :: byte);
               packet = memcpy packet 0 (obj_bytes e t_op) 4;
               packet = memcpy packet 4 [ret] 1;
               packet = memcpy packet HEADER_LEN block 256
           in nwrite sd (int (HEADER_LEN + 256)) packet
         else
           let packet = memcpy packet 0 (obj_bytes e t_op @ [adj]) HEADER_LEN
           in nwrite sd (int HEADER_LEN) packet)"

section \<open>Connection\<close>

text \<open>
  The calls \<open>jbod_connect\<close> makes into the system: \<open>inet_aton\<close> (0 for a malformed
  address), \<open>socket\<close> and \<open>connect\<close> (each \<open>-1\<close> on failure). The global \<open>cli_sd\<close>
  is passed in and returned.
\<close>

record sys =
  sys_inet_aton :: "string \<Rightarrow> int"
  sys_socket :: int
  sys_connect :: "int \<Rightarrow> string \<Rightarrow> 16 word \<Rightarrow> int"

definition jbod_connect :: "sys \<Rightarrow> int \<Rightarrow> string \<Rightarrow> 16 word \<Rightarrow> bool \<times> int" where
  "jbod_connect s cli_sd ip port =
     (if sys_inet_aton s ip = 0 then (False, cli_sd)
      else
        let cli_sd = sys_socket s
        in if cli_sd = - 1 then (False, cli_sd)
           else if sys_connect s cli_sd ip port = - 1 then (False, cli_sd)
           else (True, cli_sd))"

section \<open>Concrete inputs\<close>

text \<open>A fresh endpoint with the given scripts, a stack of zero bytes, and a system where
  the address parses, \<open>socket\<close> returns descriptor 3 and \<open>connect\<close> is refused.\<close>

definition peer :: "rx_event list \<Rightarrow> tx_event list \<Rightarrow> sock" where
  "peer r t = \<lparr>rx = r, tx = t, wire = [], reads = 0, writes = 0\<rparr>"

definition zeroed :: "nat \<Rightarrow> byte" where
  "zeroed i = 0"

definition no_listener :: sys where
  "no_listener =
     \<lparr>sys_inet_aton = (\<lambda>ip. 1), sys_socket = 3, sys_connect = (\<lambda>fd ip port. - 1)\<rparr>"

section \<open>Byte order\<close>

lemma byte_masks:
  "(0xff :: uint32) = mask 8" "(0xff00 :: uint32) = push_bit 8 (mask 8)"
  "(0xff0000 :: uint32) = push_bit 16 (mask 8)" "(0xff000000 :: uint32) = push_bit 24 (mask 8)"
  by (simp_all add: mask_eq_exp_minus_1)

lemma bswap_32_byte0: "(ucast (drop_bit 24 (bswap_32 w)) :: byte) = ucast w"
  unfolding bswap_32_def byte_masks
  by (rule bit_word_eqI) (auto simp add: bit_simps)

lemma bswap_32_byte1: "(ucast (drop_bit 16 (bswap_32 w)) :: byte) = ucast (drop_bit 8 w)"
  unfolding bswap_32_def byte_masks
  by (rule bit_word_eqI) (auto simp add: bit_simps)

lemma bswap_32_byte2: "(ucast (drop_bit 8 (bswap_32 w)) :: byte) = ucast (drop_bit 16 w)"
  unfolding bswap_32_def byte_masks
  by (rule bit_word_eqI) (auto simp add: bit_simps)

lemma bswap_32_byte3: "(ucast (bswap_32 w) :: byte) = ucast (drop_bit 24 w)"
  unfolding bswap_32_def byte_masks
  by (rule bit_word_eqI) (auto simp add: bit_simps)

text \<open>Whatever the host, the bytes of \<open>htonl(op)\<close> in memory are \<open>op\<close> in network
  order.\<close>

lemma obj_bytes_htonl: "obj_bytes e (htonl e w) = be_bytes w"
  by (cases e)
    (simp_all add: obj_bytes_def htonl_def be_bytes_def
       bswap_32_byte0 bswap_32_byte1 bswap_32_byte2 bswap_32_byte3)

lemma length_be_bytes [simp]: "length (be_bytes w) = 4"
  by (simp add: be_bytes_def)

lemma length_uninit [simp]: "length (uninit n junk) = n"
  by (simp add: uninit_def)

section \<open>Copies\<close>

lemma memcpy_append:
  assumes "off \<le> length buf"
  shows "memcpy (memcpy buf off d (length d)) (off + length d) ds (length ds) =
         memcpy buf off (d @ ds) (length d + length ds)"
  using assms by (simp add: memcpy_def min_def ac_simps)

lemma length_memcpy_ge:
  "off \<le> length buf \<Longrightarrow> off + length d \<le> length (memcpy buf off d (length d))"
  by (simp add: memcpy_def)

lemma memcpy_Nil: "memcpy buf off [] 0 = buf"
  by (simp add: memcpy_def)

lemma take_drop_length_take: "take n xs @ drop (length (take n xs)) xs = xs"
  by (cases "n \<le> length xs") (simp_all add: min_def)

section \<open>The read loop\<close>

lemma nread_loop_step:
  assumes "r < len" and "rx fd = Rx_Data d # es" and "d \<noteq> []" and "length d \<le> nat (len - r)"
  shows "nread_loop fd len buf r =
         nread_loop (fd\<lparr>rx := es, reads := reads fd + 1\<rparr>) len
           (memcpy buf (nat r) d (length d)) (r + int (length d))"
  using assms by (subst nread_loop.simps) (simp add: sys_read_def)

lemma nread_loop_error:
  assumes "r < len" and "rx fd = Rx_Error # es"
  shows "nread_loop fd len buf r = Some (False, fd\<lparr>rx := es, reads := reads fd + 1\<rparr>, buf)"
  using assms by (subst nread_loop.simps) (simp add: sys_read_def)

lemma nread_loop_done:
  assumes "len \<le> r"
  shows "nread_loop fd len buf r = Some (True, fd, buf)"
  using assms by (subst nread_loop.simps) simp

text \<open>Segments that fit into what is still wanted are taken one \<open>read\<close> each.\<close>

lemma nread_loop_data:
  assumes "rx fd = map Rx_Data segs @ rest" and "\<forall>d \<in> set segs. d \<noteq> []"
    and "0 \<le> r" and "r + int (length (concat segs)) \<le> len" and "nat r \<le> length buf"
  shows "nread_loop fd len buf r =
         nread_loop (fd\<lparr>rx := rest, reads := reads fd + length segs\<rparr>) len
           (memcpy buf (nat r) (concat segs) (length (concat segs)))
           (r + int (length (concat segs)))"
  using assms
proof (induction segs arbitrary: fd buf r)
  case Nil
  have "fd\<lparr>rx := rest, reads := reads fd + length ([] :: byte list list)\<rparr> = fd"
    using Nil.prems(1) [symmetric] by simp
  then show ?case by (simp add: memcpy_Nil)
next
  case (Cons d segs)
  let ?fd = "fd\<lparr>rx := map Rx_Data segs @ rest, reads := reads fd + 1\<rparr>"
  let ?buf = "memcpy buf (nat r) d (length d)"
  let ?r = "r + int (length d)"
  from Cons.prems(2) have d: "d \<noteq> []"
    by simp
  then have pos: "0 < length d"
    by simp
  have tot: "r + int (length d) + int (length (concat segs)) \<le> len"
    using Cons.prems(4) by simp
  from tot pos have fits: "length d \<le> nat (len - r)" and lt: "r < len"
    by linarith+
  have step: "nread_loop fd len buf r = nread_loop ?fd len ?buf ?r"
    using Cons.prems(1) by (intro nread_loop_step [OF lt _ d fits]) simp
  have nr: "nat ?r = nat r + length d"
    using Cons.prems(3) by simp
  have "nread_loop ?fd len ?buf ?r =
        nread_loop (?fd\<lparr>rx := rest, reads := reads ?fd + length segs\<rparr>) len
          (memcpy ?buf (nat ?r) (concat segs) (length (concat segs)))
          (?r + int (length (concat segs)))"
  proof (rule Cons.IH)
    show "nat ?r \<le> length ?buf"
      unfolding nr using Cons.prems(5) by (rule length_memcpy_ge)
  qed (use Cons.prems in auto)
  also have "memcpy ?buf (nat ?r) (concat segs) (length (concat segs)) =
             memcpy buf (nat r) (concat (d # segs)) (length (concat (d # segs)))"
    unfolding nr using memcpy_append [OF Cons.prems(5), of d "concat segs"] by simp
  finally show ?case
    using step by (simp add: add.assoc)
qed

lemma nread_complete:
  assumes "rx fd = map Rx_Data segs @ rest" and "\<forall>d \<in> set segs. d \<noteq> []"
    and "int (length (concat segs)) = len"
  shows "nread fd len buf =
         Some (True, fd\<lparr>rx := rest, reads := reads fd + length segs\<rparr>,
               concat segs @ drop (nat len) buf)"
proof -
  have "nread_loop fd len buf 0 =
        nread_loop (fd\<lparr>rx := rest, reads := reads fd + length segs\<rparr>) len
          (memcpy buf (nat 0) (concat segs) (length (concat segs)))
          (0 + int (length (concat segs)))"
    using assms by (intro nread_loop_data) simp_all
  also have "\<dots> = Some (True, fd\<lparr>rx := rest, reads := reads fd + length segs\<rparr>,
                        memcpy buf (nat 0) (concat segs) (length (concat segs)))"
    using assms(3) by (intro nread_loop_done) simp
  finally show ?thesis
    using assms(3) by (auto simp add: nread_def memcpy_def)
qed

lemma nread_fails:
  assumes "rx fd = map Rx_Data segs @ Rx_Error # rest" and "\<forall>d \<in> set segs. d \<noteq> []"
    and "int (length (concat segs)) < len"
  shows "nread fd len buf =
         Some (False, fd\<lparr>rx := rest, reads := reads fd + length segs + 1\<rparr>,
               concat segs @ drop (length (concat segs)) buf)"
proof -
  let ?fd = "fd\<lparr>rx := Rx_Error # rest, reads := reads fd + length segs\<rparr>"
  have "nread_loop fd len buf 0 =
        nread_loop ?fd len (memcpy buf (nat 0) (concat segs) (length (concat segs)))
          (0 + int (length (concat segs)))"
    using assms by (intro nread_loop_data) simp_all
  also have "\<dots> = Some (False, ?fd\<lparr>rx := rest, reads := reads ?fd + 1\<rparr>,
                        memcpy buf (nat 0) (concat segs) (length (concat segs)))"
    using assms(3) by (intro nread_loop_error) simp_all
  finally show ?thesis
    by (simp add: nread_def memcpy_def)
qed

text \<open>Once the peer has closed, the loop asks again and again and gets 0 each time.\<close>

lemma nread_loop_closed_aux:
  assumes "nread_loop fd len buf r = Some y"
  shows "\<not> (rx fd = [] \<and> r < len)"
  by (rule nread_loop.raw_induct
        [where P = "\<lambda>fd len buf r y. \<not> (rx fd = [] \<and> r < len)", OF _ assms])
     (auto simp add: sys_read_def split: if_splits)

lemma nread_loop_closed: "rx fd = [] \<Longrightarrow> r < len \<Longrightarrow> nread_loop fd len buf r = None"
  using nread_loop_closed_aux [of fd len buf r] by (cases "nread_loop fd len buf r") auto

text \<open>A buffer with room for \<open>len\<close> bytes keeps its size; so the header array of
  \<open>recv_packet\<close> still has its \<open>HEADER_LEN\<close> bytes when the status is read at index 4.\<close>

lemma sys_read_cases:
  assumes "sys_read fd count = (num, data, fd')"
  shows "num = - 1 \<or> (0 \<le> num \<and> nat num = length data \<and> length data \<le> count)"
  using assms by (auto simp add: sys_read_def split: list.splits rx_event.splits)

lemma nread_loop_length:
  assumes "nread_loop fd len buf r = Some y"
  shows "0 \<le> r \<longrightarrow> nat len \<le> length buf \<longrightarrow> length (snd (snd y)) = length buf"
proof (rule nread_loop.raw_induct
    [where P = "\<lambda>fd len buf r y. 0 \<le> r \<longrightarrow> nat len \<le> length buf \<longrightarrow>
         length (snd (snd y)) = length buf", OF _ assms])
  fix loop :: "sock \<Rightarrow> int \<Rightarrow> byte list \<Rightarrow> int \<Rightarrow> (bool \<times> sock \<times> byte list) option"
    and fd len buf r y
  assume IH: "\<And>fd len buf r y. loop fd len buf r = Some y \<Longrightarrow>
      0 \<le> r \<longrightarrow> nat len \<le> length buf \<longrightarrow> length (snd (snd y)) = length buf"
  assume body: "(if r < len then
        (case sys_read fd (nat (len - r)) of
           (num, data, fd') \<Rightarrow>
             if num = - 1 then Some (False, fd', buf)
             else loop fd' len (memcpy buf (nat r) data (nat num)) (r + num))
      else Some (True, fd, buf)) = Some y"
  show "0 \<le> r \<longrightarrow> nat len \<le> length buf \<longrightarrow> length (snd (snd y)) = length buf"
  proof (intro impI)
    assume r0: "0 \<le> r" and room: "nat len \<le> length buf"
    show "length (snd (snd y)) = length buf"
    proof (cases "r < len")
      case False
      with body show ?thesis by auto
    next
      case True
      obtain num data fd' where rd: "sys_read fd (nat (len - r)) = (num, data, fd')"
        by (cases "sys_read fd (nat (len - r))") auto
      show ?thesis
      proof (cases "num = - 1")
        case True
        with body \<open>r < len\<close> rd show ?thesis by auto
      next
        case False
        with sys_read_cases [OF rd]
        have num: "0 \<le> num" "nat num = length data" "length data \<le> nat (len - r)"
          by auto
        let ?buf = "memcpy buf (nat r) data (nat num)"
        have rec: "loop fd' len ?buf (r + num) = Some y"
          using body True rd False by simp
        have "nat r + length data \<le> length buf"
          using num(3) True r0 room by linarith
        then have same: "length ?buf = length buf"
          using num(2) by (simp add: memcpy_def)
        from IH [OF rec] r0 num(1) room same show ?thesis
          by simp
      qed
    qed
  qed
qed

lemma nread_length:
  assumes "nread fd len buf = Some (status, fd', buf')" and "nat len \<le> length buf"
  shows "length buf' = length buf"
  using nread_loop_length [of fd len buf 0 "(status, fd', buf')"] assms
  by (simp add: nread_def)

lemma header_length:
  assumes "nread sd (int HEADER_LEN) (uninit HEADER_LEN junk) = Some (status, sd1, packet)"
  shows "length packet = HEADER_LEN"
  using nread_length [OF assms] by simp

section \<open>The write loop\<close>

lemma nwrite_loop_step:
  assumes "w < len" and "0 \<le> w" and "tx fd = Tx_Room n # es" and "n \<le> nat (len - w)"
    and "nat len \<le> length buf"
  shows "nwrite_loop fd len buf w =
         nwrite_loop (fd\<lparr>tx := es, wire := wire fd @ take n (drop (nat w) buf),
                        writes := writes fd + 1\<rparr>) len buf (w + int n)"
proof -
  let ?D = "take (nat (len - w)) (drop (nat w) buf)"
  have k: "length (take n ?D) = n"
    using assms by simp
  have tk: "take n ?D = take n (drop (nat w) buf)"
    using assms by (simp add: min_def)
  have "sys_write fd ?D =
        (int (length (take n ?D)),
         fd\<lparr>tx := es, wire := wire fd @ take n ?D, writes := writes fd + 1\<rparr>)"
    by (simp add: sys_write_def assms(3))
  then have sw: "sys_write fd ?D =
        (int n, fd\<lparr>tx := es, wire := wire fd @ take n (drop (nat w) buf),
                  writes := writes fd + 1\<rparr>)"
    unfolding tk k [unfolded tk] .
  show ?thesis
    by (subst nwrite_loop.simps) (simp add: sw assms(1))
qed


lemma nwrite_loop_done:
  assumes "len \<le> w"
  shows "nwrite_loop fd len buf w = Some (True, fd)"
  using assms by (subst nwrite_loop.simps) simp

lemma nwrite_loop_rooms:
  assumes "tx fd = map Tx_Room ns @ rest" and "\<forall>n \<in> set ns. 0 < n"
    and "0 \<le> w" and "w + int (sum_list ns) \<le> len" and "nat len \<le> length buf"
  shows "nwrite_loop fd len buf w =
         nwrite_loop (fd\<lparr>tx := rest, wire := wire fd @ take (sum_list ns) (drop (nat w) buf),
                        writes := writes fd + length ns\<rparr>) len buf (w + int (sum_list ns))"
  using assms
proof (induction ns arbitrary: fd w)
  case Nil
  have "fd\<lparr>tx := rest, wire := wire fd @ take (sum_list []) (drop (nat w) buf),
           writes := writes fd + length ([] :: nat list)\<rparr> = fd"
    using Nil.prems(1) [symmetric] by simp
  then show ?case by simp
next
  case (Cons n ns)
  let ?fd = "fd\<lparr>tx := map Tx_Room ns @ rest, wire := wire fd @ take n (drop (nat w) buf),
                 writes := writes fd + 1\<rparr>"
  let ?w = "w + int n"
  from Cons.prems(2) have pos: "0 < n"
    by simp
  have tot: "w + int n + int (sum_list ns) \<le> len"
    using Cons.prems(4) by simp
  from tot pos have fits: "n \<le> nat (len - w)" and lt: "w < len"
    by linarith+
  have step: "nwrite_loop fd len buf w = nwrite_loop ?fd len buf ?w"
    using Cons.prems(1) by (intro nwrite_loop_step [OF lt Cons.prems(3) _ fits Cons.prems(5)]) simp
  have nw: "nat ?w = nat w + n"
    using Cons.prems(3) by simp
  have "nwrite_loop ?fd len buf ?w =
        nwrite_loop (?fd\<lparr>tx := rest,
                         wire := wire ?fd @ take (sum_list ns) (drop (nat ?w) buf),
                         writes := writes ?fd + length ns\<rparr>) len buf (?w + int (sum_list ns))"
    by (rule Cons.IH) (use Cons.prems tot in auto)
  also have "wire ?fd @ take (sum_list ns) (drop (nat ?w) buf) =
             wire fd @ take (sum_list (n # ns)) (drop (nat w) buf)"
    unfolding nw by (simp add: take_add ac_simps)
  finally show ?case
    using step by (simp add: add.assoc)
qed

lemma nwrite_complete:
  assumes "tx fd = map Tx_Room ns @ rest" and "\<forall>n \<in> set ns. 0 < n"
    and "int (sum_list ns) = len" and "nat len \<le> length buf"
  shows "nwrite fd len buf =
         Some (True, fd\<lparr>tx := rest, wire := wire fd @ take (nat len) buf,
                        writes := writes fd + length ns\<rparr>)"
proof -
  let ?fd = "fd\<lparr>tx := rest, wire := wire fd @ take (sum_list ns) (drop (nat 0) buf),
                 writes := writes fd + length ns\<rparr>"
  have "nwrite_loop fd len buf 0 = nwrite_loop ?fd len buf (0 + int (sum_list ns))"
    using assms by (intro nwrite_loop_rooms) simp_all
  also have "\<dots> = Some (True, ?fd)"
    using assms(3) by (intro nwrite_loop_done) simp
  finally show ?thesis
    using assms(3) by (auto simp add: nwrite_def)
qed


text \<open>However the kernel splits the transfer: when the loop reports success, what went
  onto the wire is the rest of the first \<open>len\<close> bytes of the buffer.\<close>

lemma nwrite_loop_wire:
  assumes "nwrite_loop fd len buf w = Some y"
  shows "0 \<le> w \<longrightarrow> w \<le> len \<longrightarrow> fst y \<longrightarrow>
         wire (snd y) = wire fd @ drop (nat w) (take (nat len) buf)"
proof (rule nwrite_loop.raw_induct
    [where P = "\<lambda>fd len buf w y. 0 \<le> w \<longrightarrow> w \<le> len \<longrightarrow> fst y \<longrightarrow>
         wire (snd y) = wire fd @ drop (nat w) (take (nat len) buf)", OF _ assms])
  fix loop :: "sock \<Rightarrow> int \<Rightarrow> byte list \<Rightarrow> int \<Rightarrow> (bool \<times> sock) option"
    and fd len buf w y
  assume IH: "\<And>fd len buf w y. loop fd len buf w = Some y \<Longrightarrow>
      0 \<le> w \<longrightarrow> w \<le> len \<longrightarrow> fst y \<longrightarrow>
      wire (snd y) = wire fd @ drop (nat w) (take (nat len) buf)"
  assume body: "(if w < len then
        (case sys_write fd (take (nat (len - w)) (drop (nat w) buf)) of
           (num, fd') \<Rightarrow>
             if num = - 1 then Some (False, fd')
             else loop fd' len buf (w + num))
      else Some (True, fd)) = Some y"
  show "0 \<le> w \<longrightarrow> w \<le> len \<longrightarrow> fst y \<longrightarrow>
         wire (snd y) = wire fd @ drop (nat w) (take (nat len) buf)"
  proof (intro impI)
    assume w0: "0 \<le> w" and wl: "w \<le> len" and ok: "fst y"
    let ?D = "take (nat (len - w)) (drop (nat w) buf)"
    have D: "drop (nat w) (take (nat len) buf) = ?D"
      using w0 wl by (simp add: drop_take nat_diff_distrib)
    show "wire (snd y) = wire fd @ drop (nat w) (take (nat len) buf)"
    proof (cases "w < len")
      case False
      with body wl show ?thesis by auto
    next
      case True
      show ?thesis
      proof (cases "tx fd")
        case Nil
        with body True ok show ?thesis by (auto simp add: sys_write_def)
      next
        case (Cons ev es)
        show ?thesis
        proof (cases ev)
          case Tx_Error
          with body True ok Cons show ?thesis by (auto simp add: sys_write_def)
        next
          case (Tx_Room n)
          let ?k = "length (take n ?D)"
          let ?fd = "fd\<lparr>tx := es, wire := wire fd @ take n ?D, writes := writes fd + 1\<rparr>"
          have rec: "loop ?fd len buf (w + int ?k) = Some y"
            using body True Cons Tx_Room by (simp add: sys_write_def)
          have "length ?D \<le> nat (len - w)" and "?k \<le> length ?D"
            by simp_all
          with True have le: "int ?k \<le> len - w"
            by linarith
          have "wire (snd y) = wire ?fd @ drop (nat (w + int ?k)) (take (nat len) buf)"
            using IH [OF rec] w0 le ok by simp
          also have "drop (nat (w + int ?k)) (take (nat len) buf) = drop ?k ?D"
            using w0 by (simp add: D [symmetric] nat_add_distrib add.commute)
          also have "wire ?fd @ drop ?k ?D = wire fd @ (take n ?D @ drop ?k ?D)"
            by simp
          also have "take n ?D @ drop ?k ?D = ?D"
            by (rule take_drop_length_take)
          finally show ?thesis
            by (simp add: D)
        qed
      qed
    qed
  qed
qed

lemma nwrite_wire:
  assumes "nwrite fd len buf = Some (True, fd')" and "0 \<le> len"
  shows "wire fd' = wire fd @ take (nat len) buf"
  using nwrite_loop_wire [of fd len buf 0 "(True, fd')"] assms by (simp add: nwrite_def)

section \<open>Claims on the reliable byte transfer\<close>





text \<open>
  Claim C4. The claim asks that \<open>nread\<close> fail when a \<open>read\<close> returns 0 before \<open>n\<close>
  bytes are in. The loop tests the return value against \<open>-1\<close> only: on 0 it adds
  nothing and calls \<open>read\<close> again. With a peer that sends two bytes and closes, a
  request for five bytes never returns.
\<close>

theorem nread_peer_closed_never_returns:
  "nread (peer [Rx_Data [1, 2]] []) 5 [0, 0, 0, 0, 0] = None"
proof -
  let ?fd = "peer [Rx_Data [1, 2]] []"
  have "nread_loop ?fd 5 [0, 0, 0, 0, 0] 0 =
        nread_loop (?fd\<lparr>rx := [], reads := reads ?fd + length [[1, 2 :: byte]]\<rparr>) 5
          (memcpy [0, 0, 0, 0, 0] (nat 0) (concat [[1, 2]]) (length (concat [[1, 2 :: byte]])))
          (0 + int (length (concat [[1, 2 :: byte]])))"
    by (rule nread_loop_data) (simp_all add: peer_def)
  also have "\<dots> = None"
    by (rule nread_loop_closed) simp_all
  finally show ?thesis
    by (simp add: nread_def)
qed

section \<open>The packets built by \<open>send_packet\<close>\<close>

lemma packet_of_write_block:
  assumes "drop_bit 12 (op AND push_bit 12 0x3f) = wb" and "length block = 256"
  shows "send_packet e wb junk adj sd op block = nwrite sd 261 (be_bytes op @ 2 # block)"
  using assms
  by (simp add: send_packet_def Let_def obj_bytes_htonl memcpy_def HEADER_LEN_def)

lemma packet_of_other_command:
  assumes "drop_bit 12 (op AND push_bit 12 0x3f) \<noteq> wb"
  shows "send_packet e wb junk adj sd op block =
         nwrite sd 5 (be_bytes op @ adj # drop 5 (uninit 261 junk))"
proof -
  have "length (obj_bytes e (htonl e op)) = 4"
    by (simp add: obj_bytes_htonl)
  then show ?thesis
    using assms
    by (simp add: send_packet_def Let_def memcpy_def HEADER_LEN_def)
      (simp add: obj_bytes_htonl)
qed

section \<open>Claims on the packet encoder\<close>

text \<open>
  Claim C5. For an opcode whose command field is \<open>JBOD_WRITE_BLOCK\<close> and a block of 256
  bytes, \<open>send_packet\<close> hands \<open>nwrite\<close> 261 bytes: the opcode in big-endian order,
  the byte 2, the block. Whenever it returns true these 261 bytes, and no others, went
  onto the wire; and it does return true when the kernel takes them in positive parts.
\<close>

theorem send_packet_write_block_request:
  assumes "drop_bit 12 (op AND push_bit 12 0x3f) = wb" and "length block = 256"
  shows "send_packet e wb junk adj sd op block = nwrite sd 261 (be_bytes op @ 2 # block)
       \<and> length (be_bytes op @ 2 # block) = 261
       \<and> (\<forall>sd'. send_packet e wb junk adj sd op block = Some (True, sd') \<longrightarrow>
             wire sd' = wire sd @ be_bytes op @ 2 # block)
       \<and> (\<forall>ns rest. tx sd = map Tx_Room ns @ rest \<and> (\<forall>n \<in> set ns. 0 < n)
               \<and> sum_list ns = 261 \<longrightarrow>
             send_packet e wb junk adj sd op block =
               Some (True, sd\<lparr>tx := rest, wire := wire sd @ be_bytes op @ 2 # block,
                              writes := writes sd + length ns\<rparr>))"
proof -
  let ?p = "be_bytes op @ 2 # block"
  have eq: "send_packet e wb junk adj sd op block = nwrite sd 261 ?p"
    using assms by (rule packet_of_write_block)
  have len: "length ?p = 261"
    using assms(2) by simp
  have sent: "wire sd' = wire sd @ ?p"
    if "send_packet e wb junk adj sd op block = Some (True, sd')" for sd'
    using nwrite_wire [of sd 261 ?p sd'] that len by (simp add: eq)
  have split: "send_packet e wb junk adj sd op block =
       Some (True, sd\<lparr>tx := rest, wire := wire sd @ ?p, writes := writes sd + length ns\<rparr>)"
    if "tx sd = map Tx_Room ns @ rest" and "\<forall>n \<in> set ns. 0 < n" and "sum_list ns = 261"
    for ns rest
    using nwrite_complete [of sd ns rest 261 ?p] that len by (simp add: eq)
  from eq len sent split show ?thesis
    by blast
qed

theorem send_packet_write_block_request_witness:
  "drop_bit 12 ((0x5000 :: uint32) AND push_bit 12 0x3f) = (5 :: uint32)
   \<and> length (replicate 256 (0xAA :: byte)) = 256
   \<and> send_packet Little_Endian 5 zeroed 0 (peer [] [Tx_Room 100, Tx_Room 161]) 0x5000
        (replicate 256 0xAA) =
      Some (True,
        \<lparr>rx = [], tx = [], wire = [0, 0, 0x50, 0, 2] @ replicate 256 0xAA,
           reads = 0, writes = 2\<rparr>)"
proof -
  have cmd: "drop_bit 12 ((0x5000 :: uint32) AND push_bit 12 0x3f) = (5 :: uint32)"
    by simp
  have len: "length (replicate 256 (0xAA :: byte)) = 256"
    by simp
  have bytes: "be_bytes 0x5000 = [0, 0, 0x50, 0]"
    by (simp add: be_bytes_def)
  let ?sd = "peer [] [Tx_Room 100, Tx_Room 161]"
  from send_packet_write_block_request
    [OF cmd len, where e = Little_Endian and junk = zeroed and adj = 0 and sd = ?sd]
  have "tx ?sd = map Tx_Room [100, 161] @ [] \<and> (\<forall>n \<in> set [100, 161 :: nat]. 0 < n)
          \<and> sum_list [100, 161 :: nat] = 261 \<longrightarrow>
        send_packet Little_Endian 5 zeroed 0 ?sd 0x5000 (replicate 256 0xAA) =
          Some (True, ?sd\<lparr>tx := [],
                  wire := wire ?sd @ be_bytes 0x5000 @ 2 # replicate 256 0xAA,
                  writes := writes ?sd + length [100, 161 :: nat]\<rparr>)"
    by blast
  with cmd len show ?thesis
    by (simp add: peer_def bytes)
qed

text \<open>
  Claim C1, as stated, fails: for an opcode with another command the length passed to
  \<open>nwrite\<close> is \<open>HEADER_LEN\<close>, which is 5, so five bytes go out, not four. Here the
  opcode is \<open>0x01020304\<close> (command field \<open>0x20\<close>) and \<open>JBOD_WRITE_BLOCK\<close> is 5.
\<close>

theorem send_packet_four_bytes_counterexample:
  "drop_bit 12 ((0x01020304 :: uint32) AND push_bit 12 0x3f) \<noteq> (5 :: uint32)
   \<and> send_packet Little_Endian 5 zeroed 0x77 (peer [] [Tx_Room 5]) 0x01020304 [] =
      Some (True, \<lparr>rx = [], tx = [], wire = [1, 2, 3, 4, 0x77], reads = 0, writes = 1\<rparr>)
   \<and> [1, 2, 3, 4, 0x77] \<noteq> be_bytes 0x01020304
   \<and> length [1, 2, 3, 4, 0x77 :: byte] \<noteq> 4"
proof -
  have cmd: "drop_bit 12 ((0x01020304 :: uint32) AND push_bit 12 0x3f) \<noteq> (5 :: uint32)"
    by simp
  have bytes: "be_bytes 0x01020304 = [1, 2, 3, 4]"
    by (simp add: be_bytes_def)
  have "send_packet Little_Endian 5 zeroed 0x77 (peer [] [Tx_Room 5]) 0x01020304 [] =
        nwrite (peer [] [Tx_Room 5]) 5 ([1, 2, 3, 4] @ 0x77 # drop 5 (uninit 261 zeroed))"
    using packet_of_other_command [OF cmd] by (simp add: bytes)
  also have "\<dots> = Some (True,
      \<lparr>rx = [], tx = [], wire = [1, 2, 3, 4, 0x77], reads = 0, writes = 1\<rparr>)"
    using nwrite_complete [of "peer [] [Tx_Room 5]" "[5]" "[]" 5
        "[1, 2, 3, 4] @ 0x77 # drop 5 (uninit 261 zeroed)"]
    by (simp add: peer_def)
  finally show ?thesis
    using cmd by (simp add: bytes)
qed

text \<open>
  Claim C1, amended. For an opcode whose command field is not \<open>JBOD_WRITE_BLOCK\<close>,
  whenever \<open>send_packet\<close> returns true it has put exactly \<open>HEADER_LEN\<close> = 5 bytes on
  the wire, the first four of them the opcode in big-endian order, and no block; and it
  does return true when the kernel takes the five bytes in positive parts.
\<close>

theorem send_packet_no_block_request:
  assumes "drop_bit 12 (op AND push_bit 12 0x3f) \<noteq> wb"
  shows "(\<forall>sd'. send_packet e wb junk adj sd op block = Some (True, sd') \<longrightarrow>
            length (wire sd') = length (wire sd) + HEADER_LEN
          \<and> take 4 (drop (length (wire sd)) (wire sd')) = be_bytes op)
       \<and> (\<forall>ns rest. tx sd = map Tx_Room ns @ rest \<and> (\<forall>n \<in> set ns. 0 < n)
               \<and> sum_list ns = HEADER_LEN \<longrightarrow>
             (\<exists>sd'. send_packet e wb junk adj sd op block = Some (True, sd')
                \<and> tx sd' = rest \<and> writes sd' = writes sd + length ns))"
proof -
  let ?p = "be_bytes op @ adj # drop 5 (uninit 261 junk)"
  have eq: "send_packet e wb junk adj sd op block = nwrite sd 5 ?p"
    using assms by (rule packet_of_other_command)
  have sent: "length (wire sd') = length (wire sd) + HEADER_LEN
            \<and> take 4 (drop (length (wire sd)) (wire sd')) = be_bytes op"
    if "send_packet e wb junk adj sd op block = Some (True, sd')" for sd'
    using nwrite_wire [of sd 5 ?p sd'] that by (simp add: eq HEADER_LEN_def)
  have split: "\<exists>sd'. send_packet e wb junk adj sd op block = Some (True, sd')
                \<and> tx sd' = rest \<and> writes sd' = writes sd + length ns"
    if "tx sd = map Tx_Room ns @ rest" and "\<forall>n \<in> set ns. 0 < n"
      and "sum_list ns = HEADER_LEN"
    for ns rest
    using nwrite_complete [of sd ns rest 5 ?p] that by (simp add: eq HEADER_LEN_def)
  from sent split show ?thesis
    by blast
qed

theorem send_packet_no_block_request_witness:
  "drop_bit 12 ((0x01020304 :: uint32) AND push_bit 12 0x3f) \<noteq> (5 :: uint32)
   \<and> send_packet Big_Endian 5 zeroed 0x77 (peer [] [Tx_Room 2, Tx_Room 3, Tx_Room 9])
        0x01020304 [] =
      Some (True,
        \<lparr>rx = [], tx = [Tx_Room 9], wire = [1, 2, 3, 4, 0x77], reads = 0, writes = 2\<rparr>)
   \<and> length [1, 2, 3, 4, 0x77 :: byte] = 0 + HEADER_LEN
   \<and> take 4 (drop 0 [1, 2, 3, 4, 0x77]) = be_bytes 0x01020304"
proof -
  let ?sd = "peer [] [Tx_Room 2, Tx_Room 3, Tx_Room 9]"
  let ?sd' = "\<lparr>rx = [], tx = [Tx_Room 9], wire = [1, 2, 3, 4, 0x77 :: byte],
                 reads = 0, writes = 2\<rparr>"
  have cmd: "drop_bit 12 ((0x01020304 :: uint32) AND push_bit 12 0x3f) \<noteq> (5 :: uint32)"
    by simp
  have bytes: "be_bytes 0x01020304 = [1, 2, 3, 4]"
    by (simp add: be_bytes_def)
  have "send_packet Big_Endian 5 zeroed 0x77 ?sd 0x01020304 [] =
        nwrite ?sd 5 ([1, 2, 3, 4] @ 0x77 # drop 5 (uninit 261 zeroed))"
    using packet_of_other_command [OF cmd] by (simp add: bytes)
  also have "\<dots> = Some (True, ?sd')"
    using nwrite_complete [of ?sd "[2, 3]" "[Tx_Room 9]" 5
        "[1, 2, 3, 4] @ 0x77 # drop 5 (uninit 261 zeroed)"]
    by (simp add: peer_def)
  finally have run: "send_packet Big_Endian 5 zeroed 0x77 ?sd 0x01020304 [] = Some (True, ?sd')" .
  from send_packet_no_block_request
    [OF cmd, where e = Big_Endian and junk = zeroed and adj = "0x77" and sd = ?sd
       and block = "[]"] run
  have "length (wire ?sd') = length (wire ?sd) + HEADER_LEN
      \<and> take 4 (drop (length (wire ?sd)) (wire ?sd')) = be_bytes 0x01020304"
    by blast
  with cmd run show ?thesis
    by (simp add: peer_def)
qed

section \<open>Claims on the packet decoder\<close>

text \<open>
  Claim C6. Let the header have been read, leaving the endpoint \<open>sd1\<close>, and let bit 0
  of its status byte be set (bit 1 set or not). Then \<open>recv_packet\<close> returns false with
  the endpoint still \<open>sd1\<close>: no \<open>read\<close> was made after the header (the count
  \<open>reads\<close> and the inbound queue are those of \<open>sd1\<close>), and the block is as it was.
\<close>

theorem recv_packet_error_bit:
  assumes "nread sd (int HEADER_LEN) (uninit HEADER_LEN junk) = Some (True, sd1, packet)"
    and "packet ! 4 AND 1 \<noteq> 0"
  shows "recv_packet e junk sd op ret block =
         Some (False, sd1, obj_word e (take 4 packet), packet ! 4, block)"
  using assms by (simp add: recv_packet_def Let_def)

theorem recv_packet_error_bit_witness:
  "nread (peer [Rx_Data [0, 0, 0, 9, 3], Rx_Data [7, 7, 7]] []) (int HEADER_LEN)
       (uninit HEADER_LEN zeroed) =
     Some (True, \<lparr>rx = [Rx_Data [7, 7, 7]], tx = [], wire = [], reads = 1, writes = 0\<rparr>,
           [0, 0, 0, 9, 3])
   \<and> [0, 0, 0, 9, 3 :: byte] ! 4 AND 1 \<noteq> 0
   \<and> recv_packet Big_Endian zeroed (peer [Rx_Data [0, 0, 0, 9, 3], Rx_Data [7, 7, 7]] [])
        0 0 [5, 5] =
      Some (False, \<lparr>rx = [Rx_Data [7, 7, 7]], tx = [], wire = [], reads = 1, writes = 0\<rparr>,
            9, 3, [5, 5])"
proof -
  let ?sd = "peer [Rx_Data [0, 0, 0, 9, 3], Rx_Data [7, 7, 7]] []"
  let ?sd1 = "\<lparr>rx = [Rx_Data [7, 7, 7]], tx = [], wire = [], reads = 1, writes = 0\<rparr>"
  have hdr: "nread ?sd (int HEADER_LEN) (uninit HEADER_LEN zeroed) =
             Some (True, ?sd1, [0, 0, 0, 9, 3])"
    using nread_complete [of ?sd "[[0, 0, 0, 9, 3]]" "[Rx_Data [7, 7, 7]]" 5
        "uninit HEADER_LEN zeroed"]
    by (simp add: peer_def HEADER_LEN_def)
  have bit: "[0, 0, 0, 9, 3 :: byte] ! 4 AND 1 \<noteq> 0"
    by simp
  have "obj_word Big_Endian [0, 0, 0, 9] = 9"
    by (simp add: obj_word_def be_word_def)
  with recv_packet_error_bit [OF hdr bit, of Big_Endian 0 0 "[5, 5]"] hdr bit
  show ?thesis
    by simp
qed

text \<open>
  What \<open>recv_packet\<close> does after a header with bit 0 of the status byte clear and bit 1
  set, the caller's block having 256 bytes: it makes one call of \<open>nread\<close> for
  \<open>JBOD_BLOCK_SIZE\<close> = 256 bytes into the block and returns what that call returns. So
  when the 256 bytes arrive, in whatever positive parts, the result is true and the block
  holds exactly these bytes in order; and when a \<open>read\<close> returns an error before 256
  bytes are in, the result is false.
\<close>

lemma recv_packet_block_read:
  assumes "nread sd (int HEADER_LEN) (uninit HEADER_LEN junk) = Some (True, sd1, packet)"
    and "packet ! 4 AND 1 = 0" and "packet ! 4 AND 2 \<noteq> 0"
    and "length block = 256"
  shows "recv_packet e junk sd op ret block =
           map_option
             (\<lambda>(status, sd2, block'). (status, sd2, obj_word e (take 4 packet), packet ! 4, block'))
             (nread sd1 256 block)
       \<and> (\<forall>segs rest. rx sd1 = map Rx_Data segs @ rest \<and> (\<forall>d \<in> set segs. d \<noteq> [])
               \<and> length (concat segs) = 256 \<longrightarrow>
             recv_packet e junk sd op ret block =
               Some (True, sd1\<lparr>rx := rest, reads := reads sd1 + length segs\<rparr>,
                     obj_word e (take 4 packet), packet ! 4, concat segs))
       \<and> (\<forall>segs rest. rx sd1 = map Rx_Data segs @ Rx_Error # rest
               \<and> (\<forall>d \<in> set segs. d \<noteq> []) \<and> length (concat segs) < 256 \<longrightarrow>
             recv_packet e junk sd op ret block =
               Some (False, sd1\<lparr>rx := rest, reads := reads sd1 + length segs + 1\<rparr>,
                     obj_word e (take 4 packet), packet ! 4,
                     concat segs @ drop (length (concat segs)) block))"
proof -
  let ?out = "\<lambda>(status, sd2, block'). (status, sd2, obj_word e (take 4 packet), packet ! 4, block')"
  have eq: "recv_packet e junk sd op ret block = map_option ?out (nread sd1 256 block)"
    using assms
    by (cases "nread sd1 256 block") (auto simp add: recv_packet_def Let_def JBOD_BLOCK_SIZE_def)
  have good: "recv_packet e junk sd op ret block =
       Some (True, sd1\<lparr>rx := rest, reads := reads sd1 + length segs\<rparr>,
             obj_word e (take 4 packet), packet ! 4, concat segs)"
    if "rx sd1 = map Rx_Data segs @ rest" and "\<forall>d \<in> set segs. d \<noteq> []"
      and "length (concat segs) = 256"
    for segs rest
    using nread_complete [of sd1 segs rest 256 block] that assms(4) by (simp add: eq)
  have bad: "recv_packet e junk sd op ret block =
       Some (False, sd1\<lparr>rx := rest, reads := reads sd1 + length segs + 1\<rparr>,
             obj_word e (take 4 packet), packet ! 4,
             concat segs @ drop (length (concat segs)) block)"
    if "rx sd1 = map Rx_Data segs @ Rx_Error # rest" and "\<forall>d \<in> set segs. d \<noteq> []"
      and "length (concat segs) < 256"
    for segs rest
    using nread_fails [of sd1 segs rest 256 block] that by (simp add: eq)
  from eq good bad show ?thesis
    by blast
qed

text \<open>
  Claim C7. The claim asks, for a status byte with bit 0 clear and bit 1 set, for one
  further read of 256 bytes that succeeds exactly when the read does and fails when the
  block is incomplete. The read of the block is the loop of \<open>nread\<close>, which takes a
  \<open>read\<close> result of 0 for progress (the defect of claim C4): when the peer sends the
  header 00 00 00 07 02, two bytes of the block, and closes, the block is incomplete and
  \<open>recv_packet\<close> does not fail: it never returns.
\<close>

theorem recv_packet_block_peer_closed_never_returns:
  "[0, 0, 0, 7, 2 :: byte] ! 4 AND 1 = 0
   \<and> [0, 0, 0, 7, 2 :: byte] ! 4 AND 2 \<noteq> 0
   \<and> recv_packet Big_Endian zeroed (peer [Rx_Data [0, 0, 0, 7, 2], Rx_Data [8, 9]] [])
        0 0 (replicate 256 0) = None"
proof -
  let ?sd = "peer [Rx_Data [0, 0, 0, 7, 2], Rx_Data [8, 9]] []"
  let ?sd1 = "\<lparr>rx = [Rx_Data [8, 9]], tx = [], wire = [], reads = 1, writes = 0\<rparr>"
  let ?block = "replicate 256 (0 :: byte)"
  have hdr: "nread ?sd (int HEADER_LEN) (uninit HEADER_LEN zeroed) =
             Some (True, ?sd1, [0, 0, 0, 7, 2])"
    using nread_complete [of ?sd "[[0, 0, 0, 7, 2]]" "[Rx_Data [8, 9]]" 5
        "uninit HEADER_LEN zeroed"]
    by (simp add: peer_def HEADER_LEN_def)
  have "nread_loop ?sd1 256 ?block 0 =
        nread_loop (?sd1\<lparr>rx := [], reads := reads ?sd1 + length [[8, 9 :: byte]]\<rparr>) 256
          (memcpy ?block (nat 0) (concat [[8, 9]]) (length (concat [[8, 9 :: byte]])))
          (0 + int (length (concat [[8, 9 :: byte]])))"
    by (rule nread_loop_data) simp_all
  also have "\<dots> = None"
    by (rule nread_loop_closed) simp_all
  finally have blk: "nread ?sd1 (int JBOD_BLOCK_SIZE) ?block = None"
    by (simp add: nread_def JBOD_BLOCK_SIZE_def)
  from hdr blk show ?thesis
    by (simp add: recv_packet_def Let_def)
qed

text \<open>
  Claim C10. Let the header have been read with bit 1 of its status byte clear. Then
  \<open>recv_packet\<close> returns (false when bit 0 is set, true otherwise) a block that is
  the caller's block, byte for byte, and makes no \<open>read\<close> after the header.
\<close>

theorem recv_packet_block_untouched:
  assumes "nread sd (int HEADER_LEN) (uninit HEADER_LEN junk) = Some (True, sd1, packet)"
    and "packet ! 4 AND 2 = 0"
  shows "recv_packet e junk sd op ret block =
         Some (packet ! 4 AND 1 = 0, sd1, obj_word e (take 4 packet), packet ! 4, block)"
  using assms by (simp add: recv_packet_def Let_def)

theorem recv_packet_block_untouched_witness:
  "recv_packet Big_Endian zeroed (peer [Rx_Data [0, 0, 0, 9, 1], Rx_Data [7, 7, 7]] [])
       0 0 [5, 5] =
     Some (False, \<lparr>rx = [Rx_Data [7, 7, 7]], tx = [], wire = [], reads = 1, writes = 0\<rparr>,
           9, 1, [5, 5])
   \<and> recv_packet Big_Endian zeroed (peer [Rx_Data [0, 0, 0, 9, 0], Rx_Data [7, 7, 7]] [])
       0 0 [5, 5] =
     Some (True, \<lparr>rx = [Rx_Data [7, 7, 7]], tx = [], wire = [], reads = 1, writes = 0\<rparr>,
           9, 0, [5, 5])"
proof -
  let ?sd = "\<lambda>st. peer [Rx_Data [0, 0, 0, 9, st], Rx_Data [7, 7, 7]] []"
  let ?sd1 = "\<lparr>rx = [Rx_Data [7, 7, 7]], tx = [], wire = [], reads = 1, writes = 0\<rparr>"
  have hdr: "nread (?sd st) (int HEADER_LEN) (uninit HEADER_LEN zeroed) =
             Some (True, ?sd1, [0, 0, 0, 9, st])" for st
    using nread_complete [of "?sd st" "[[0, 0, 0, 9, st]]" "[Rx_Data [7, 7, 7]]" 5
        "uninit HEADER_LEN zeroed"]
    by (simp add: peer_def HEADER_LEN_def)
  have b1: "[0, 0, 0, 9, 1 :: byte] ! 4 AND 2 = 0" and b0: "[0, 0, 0, 9, 0 :: byte] ! 4 AND 2 = 0"
    by simp_all
  have opc: "obj_word Big_Endian [0, 0, 0, 9] = 9"
    by (simp add: obj_word_def be_word_def)
  from recv_packet_block_untouched [OF hdr b1, of Big_Endian 0 0 "[5, 5]"]
    recv_packet_block_untouched [OF hdr b0, of Big_Endian 0 0 "[5, 5]"]
  show ?thesis
    by (simp add: opc)
qed

text \<open>
  Claim C3. The claim asks that the four header bytes be converted from big-endian
  order to the host's. \<open>recv_packet\<close> copies them into \<open>*op\<close> as they are, without the
  \<open>ntohl\<close> that would match the \<open>htonl\<close> of \<open>send_packet\<close>: on a little-endian
  host the header bytes 00 00 00 01 give \<open>0x01000000\<close>, while their big-endian value
  is 1.
\<close>

theorem recv_packet_opcode_not_converted:
  "recv_packet Little_Endian zeroed (peer [Rx_Data [0, 0, 0, 1, 0]] []) 0 0 [] =
     Some (True, \<lparr>rx = [], tx = [], wire = [], reads = 1, writes = 0\<rparr>, 0x01000000, 0, [])
   \<and> be_word [0, 0, 0, 1] = 1"
proof -
  let ?sd = "peer [Rx_Data [0, 0, 0, 1, 0]] []"
  have hdr: "nread ?sd (int HEADER_LEN) (uninit HEADER_LEN zeroed) =
             Some (True, \<lparr>rx = [], tx = [], wire = [], reads = 1, writes = 0\<rparr>,
                   [0, 0, 0, 1, 0])"
    using nread_complete [of ?sd "[[0, 0, 0, 1, 0]]" "[]" 5 "uninit HEADER_LEN zeroed"]
    by (simp add: peer_def HEADER_LEN_def)
  show ?thesis
    by (simp add: recv_packet_def hdr obj_word_def be_word_def)
qed

section \<open>Claim on the connection\<close>

text \<open>
  Claim C2. The claim asks that, when \<open>connect\<close> fails, \<open>cli_sd\<close> still be \<open>-1\<close>
  after \<open>jbod_connect\<close> has returned false. \<open>jbod_connect\<close> stores the new socket
  in \<open>cli_sd\<close> before it calls \<open>connect\<close> and returns on failure without closing it
  or resetting \<open>cli_sd\<close> (as \<open>jbod_disconnect\<close> does): starting unconnected, with an
  address that parses, \<open>socket\<close> returning 3 and \<open>connect\<close> refused, \<open>cli_sd\<close> ends
  as 3.
\<close>

theorem jbod_connect_refused_keeps_socket:
  "jbod_connect no_listener (- 1) ''127.0.0.1'' 3333 = (False, 3)"
  by (simp add: jbod_connect_def no_listener_def)


end
